theory Spec2Isabelle
  imports Main "HOL-Library.Char_ord" "HOL-Library.List_Lexorder" "HOL-Library.Sublist"
begin

section \<open>The JavaScript runtime, as far as the logs command uses it\<close>

subsection \<open>Strings\<close>

text \<open>
  \<open>padEnd(str, maxLength)\<close> of the package string.prototype.padend: spaces are appended
  until the string has \<open>maxLength\<close> characters; a longer string is returned as it is.
\<close>

definition padEnd :: "string \<Rightarrow> nat \<Rightarrow> string" where
  "padEnd str maxLength = str @ replicate (maxLength - length str) CHR '' ''"

definition digit :: "nat \<Rightarrow> char" where
  "digit d = ''0123456789'' ! (d mod 10)"

fun decimal :: "nat \<Rightarrow> string" where
  "decimal n = (if n < 10 then [digit n] else decimal (n div 10) @ [digit (n mod 10)])"

declare decimal.simps [simp del]

text \<open>A number written with at least \<open>w\<close> digits, zero-filled on the left.\<close>

definition zero_filled :: "nat \<Rightarrow> nat \<Rightarrow> string" where
  "zero_filled w n = replicate (w - length (decimal n)) CHR ''0'' @ decimal n"

subsection \<open>Values and plain objects\<close>

text \<open>
  The values that the two object lookups of \<open>printLogs\<close> can yield. \<open>JInherited k\<close> is
  the member \<open>k\<close> that a plain object inherits from \<open>Object.prototype\<close>.
\<close>

datatype jsval = JUndefined | JBool bool | JString string | JInherited string

definition Object_prototype_keys :: "string list" where
  "Object_prototype_keys =
     [''constructor'', ''__defineGetter__'', ''__defineSetter__'', ''hasOwnProperty'',
      ''__lookupGetter__'', ''__lookupSetter__'', ''isPrototypeOf'',
      ''propertyIsEnumerable'', ''toString'', ''valueOf'', ''__proto__'',
      ''toLocaleString'']"

fun truthy :: "jsval \<Rightarrow> bool" where
  "truthy JUndefined = False"
| "truthy (JBool b) = b"
| "truthy (JString s) = (s \<noteq> [])"
| "truthy (JInherited k) = True"

text \<open>
  \<open>String(v)\<close>. The inherited members are native functions, except \<open>__proto__\<close>, an
  accessor that yields the prototype object itself.
\<close>

fun String :: "jsval \<Rightarrow> string" where
  "String JUndefined = ''undefined''"
| "String (JBool b) = (if b then ''true'' else ''false'')"
| "String (JString s) = s"
| "String (JInherited k) =
     (if k = ''__proto__'' then ''[object Object]''
      else ''function '' @ (if k = ''constructor'' then ''Object'' else k)
             @ ''() { [native code] }'')"

text \<open>
  A plain object \<open>{...}\<close> is the map of its own properties; \<open>obj[k]\<close> reads an own
  property first and the prototype chain next. \<open>obj[k] = v\<close> creates or updates an own
  property, except for \<open>__proto__\<close>, whose setter ignores a value that is not an object.
\<close>

type_synonym object = "string \<rightharpoonup> jsval"

definition get_property :: "object \<Rightarrow> string \<Rightarrow> jsval" where
  "get_property obj k =
     (case obj k of
        Some v \<Rightarrow> v
      | None \<Rightarrow> if k \<in> set Object_prototype_keys then JInherited k else JUndefined)"

definition set_property :: "object \<Rightarrow> string \<Rightarrow> jsval \<Rightarrow> object" where
  "set_property obj k v = (if k = ''__proto__'' then obj else obj(k \<mapsto> v))"

text \<open>An optional string field of a response, as a value and as a property key.\<close>

definition js_of :: "string option \<Rightarrow> jsval" where
  "js_of x = (case x of None \<Rightarrow> JUndefined | Some s \<Rightarrow> JString s)"

definition property_key :: "string option \<Rightarrow> string" where
  "property_key x = String (js_of x)"

section \<open>The environment of the command and the log entries\<close>

text \<open>
  What the logs command takes from its surroundings, and is modelled for any value of:
  the constants \<open>ERROR.*\<close> and \<open>LOG.*\<close> of \<^verbatim>\<open>./utils\<close>; whether chalk has colour
  support (it has none when the output is not a terminal); and the time zone of the
  machine, as the function \<open>LocalTZA(t, isUTC)\<close> of ECMAScript: the offset of local time
  from UTC in milliseconds, at the time value \<open>t\<close> when \<open>isUTC\<close> holds and at the local
  time \<open>t\<close> otherwise.
\<close>

record environment =
  ERROR_NO_FUNCTION_NAME :: string
  ERROR_PAYLOAD_UNKNOWN :: string
  ERROR_UNAUTHENTICATED :: string
  ERROR_UNAUTHENTICATED_LOCAL :: string
  ERROR_PERMISSION_DENIED :: string
  ERROR_PERMISSION_DENIED_LOCAL :: string
  LOG_STACKDRIVER_SETUP :: string
  chalk_enabled :: bool
  LocalTZA :: "int \<Rightarrow> bool \<Rightarrow> int"

text \<open>
  A log entry as the Stackdriver API returns it. A field that the response may leave out
  is an option. \<open>jsonPayload\<close> holds the text \<open>JSON.stringify(jsonPayload)\<close> of the
  payload object, and \<open>stringified\<close> the text \<open>JSON.stringify(entry, null, 2)\<close> of the
  whole entry.
\<close>

record labels_rec =
  function_name :: "string option"

record resource_rec =
  labels :: "labels_rec option"

record protoPayload_rec =
  at_type :: "string option"
  methodName :: "string option"

record entry =
  severity :: "string option"
  timestamp :: string
  resource :: "resource_rec option"
  textPayload :: "string option"
  protoPayload :: "protoPayload_rec option"
  jsonPayload :: "string option"
  insertId :: string
  stringified :: string

datatype error = TypeError

subsection \<open>chalk\<close>

text \<open>
  The colour functions of chalk. With colour support the text stands between the escape
  sequence that opens the colour and the one that resets the foreground; without it, and
  for an empty text, the text is returned as it is.
\<close>

definition ESC :: char where
  "ESC = CHR 0x1B"

definition chalk :: "environment \<Rightarrow> nat \<Rightarrow> string \<Rightarrow> string" where
  "chalk M code s =
     (if \<not> chalk_enabled M \<or> s = [] then s
      else ESC # ''['' @ decimal code @ ''m'' @ s @ ESC # ''[39m'')"

definition chalk_red :: "environment \<Rightarrow> string \<Rightarrow> string" where
  "chalk_red M = chalk M 31"

definition chalk_green :: "environment \<Rightarrow> string \<Rightarrow> string" where
  "chalk_green M = chalk M 32"

definition chalk_yellow :: "environment \<Rightarrow> string \<Rightarrow> string" where
  "chalk_yellow M = chalk M 33"

definition chalk_magenta :: "environment \<Rightarrow> string \<Rightarrow> string" where
  "chalk_magenta M = chalk M 35"

definition chalk_cyan :: "environment \<Rightarrow> string \<Rightarrow> string" where
  "chalk_cyan M = chalk M 36"

section \<open>printLogs\<close>

subsection \<open>The line of one entry\<close>

text \<open>
  Lines 348 and 349: \<open>resource.labels.function_name\<close> throws when \<open>resource\<close> or
  \<open>labels\<close> is missing; a missing or empty name is replaced by the placeholder.
\<close>

definition functionName :: "environment \<Rightarrow> entry \<Rightarrow> error + string" where
  "functionName M e =
     (case resource e of
        None \<Rightarrow> Inl TypeError
      | Some r \<Rightarrow>
          (case labels r of
             None \<Rightarrow> Inl TypeError
           | Some l \<Rightarrow>
               (if truthy (js_of (function_name l))
                then Inr (padEnd (String (js_of (function_name l))) 15)
                else Inr (ERROR_NO_FUNCTION_NAME M))))"

text \<open>
  Lines 354 to 361: \<open>data.textPayload || data.jsonPayload || data.protoPayload ||
  ERROR.PAYLOAD_UNKNOWN\<close>. Only the proto payload is still an object at this point.
\<close>

datatype payload = PString string | PObject protoPayload_rec

definition data_jsonPayload :: "entry \<Rightarrow> string" where
  "data_jsonPayload e = (case jsonPayload e of Some j \<Rightarrow> take 255 j | None \<Rightarrow> [])"

definition payloadData :: "environment \<Rightarrow> entry \<Rightarrow> payload" where
  "payloadData M e =
     (if truthy (js_of (textPayload e)) then PString (String (js_of (textPayload e)))
      else if data_jsonPayload e \<noteq> [] then PString (data_jsonPayload e)
      else (case protoPayload e of
              Some p \<Rightarrow> PObject p
            | None \<Rightarrow> PString (ERROR_PAYLOAD_UNKNOWN M)))"

definition AuditLog :: string where
  "AuditLog = ''type.googleapis.com/google.cloud.audit.AuditLog''"

text \<open>\<open>payloadData && payloadData['@type'] === '...AuditLog'\<close>, line 362.\<close>

fun is_audit :: "payload \<Rightarrow> bool" where
  "is_audit (PString s) = False"
| "is_audit (PObject p) = (at_type p = Some AuditLog)"

text \<open>Lines 366 to 368: a non-empty string payload is padded to 20 characters.\<close>

fun pad_payload :: "payload \<Rightarrow> payload" where
  "pad_payload (PString s) = (if s \<noteq> [] then PString (padEnd s 20) else PString s)"
| "pad_payload (PObject p) = PObject p"

text \<open>The payload inside the template literal of line 381.\<close>

fun payload_text :: "payload \<Rightarrow> string" where
  "payload_text (PString s) = s"
| "payload_text (PObject p) = ''[object Object]''"

text \<open>
  Lines 350 to 369: the function-name field and the payload shown, in JSON mode and in
  text mode. In text mode an audit-log payload is replaced by the setup message, and the
  function name by \<open>padEnd(protoPayload.methodName, 15)\<close>, which throws when the method
  name is missing.
\<close>

definition shown_fields :: "environment \<Rightarrow> bool \<Rightarrow> entry \<Rightarrow> error + string \<times> payload" where
  "shown_fields M json e =
     (case functionName M e of
        Inl err \<Rightarrow> Inl err
      | Inr fn \<Rightarrow>
          (if json then Inr (fn, PString (stringified e))
           else if is_audit (payloadData M e) then
             (case protoPayload e of
                None \<Rightarrow> Inl TypeError
              | Some p \<Rightarrow>
                  (case methodName p of
                     None \<Rightarrow> Inl TypeError
                   | Some m \<Rightarrow>
                       Inr (padEnd m 15, pad_payload (PString (LOG_STACKDRIVER_SETUP M)))))
           else Inr (fn, pad_payload (payloadData M e))))"

text \<open>
  Lines 370 to 378. \<open>coloredStringMap\<close> is a plain object with five own properties, so
  its lookup reaches \<open>Object.prototype\<close> for any other key.
\<close>

definition coloredStringMap :: "environment \<Rightarrow> string option \<Rightarrow> object" where
  "coloredStringMap M sev =
     map_of
       [(''ERROR'', JString (chalk_red M (property_key sev))),
        (''INFO'', JString (chalk_cyan M (property_key sev))),
        (''DEBUG'', JString (chalk_green M (property_key sev))),
        (''NOTICE'', JString (chalk_magenta M (property_key sev))),
        (''WARNING'', JString (chalk_yellow M (property_key sev)))]"

definition coloredSeverity :: "environment \<Rightarrow> string option \<Rightarrow> string" where
  "coloredSeverity M sev =
     (let v = get_property (coloredStringMap M sev) (property_key sev)
      in padEnd (String (if truthy v then v else js_of sev)) 20)"

text \<open>The template literal of line 381.\<close>

definition render :: "environment \<Rightarrow> bool \<Rightarrow> entry \<Rightarrow> error + string" where
  "render M json e =
     (case shown_fields M json e of
        Inl err \<Rightarrow> Inl err
      | Inr (fn, pd) \<Rightarrow>
          Inr (coloredSeverity M (severity e) @ '' '' @ timestamp e @ '' '' @ fn @ '' ''
               @ payload_text pd))"

subsection \<open>The output, the cache and the loop\<close>

text \<open>
  What the command writes: \<open>EntryLine e l\<close> is the call \<open>console.log(l)\<close> of line 381,
  labelled with the entry \<open>e\<close> that \<open>l\<close> renders; \<open>Log\<close> is any other call of
  \<open>console.log\<close>, and \<open>Error\<close> a message given to \<open>logError\<close>. \<open>requests\<close> lists the
  calls of \<open>logger.entries.list\<close>, and \<open>exited\<close> tells that the process has ended.
\<close>

datatype event = EntryLine entry string | Log string | Error string

record request =
  resourceNames :: "string list"
  filter' :: string
  orderBy :: string

record session =
  console :: "event list"
  logEntryCache :: object
  requests :: "request list"
  exited :: bool

definition session0 :: session where
  "session0 = \<lparr>console = [], logEntryCache = Map.empty, requests = [], exited = False\<rparr>"

text \<open>The entries whose lines were printed, in the order of printing.\<close>

fun printed :: "event list \<Rightarrow> entry list" where
  "printed [] = []"
| "printed (EntryLine e l # os) = e # printed os"
| "printed (Log l # os) = printed os"
| "printed (Error l # os) = printed os"

text \<open>
  The body of the loop, lines 347 to 383: the line is built first, which may throw, and
  printed when \<open>logEntryCache[insertId]\<close> is falsy.
\<close>

definition loop_body :: "environment \<Rightarrow> bool \<Rightarrow> entry \<Rightarrow> session \<Rightarrow> (error + unit) \<times> session" where
  "loop_body M json e s =
     (case render M json e of
        Inl err \<Rightarrow> (Inl err, s)
      | Inr line \<Rightarrow>
          (if \<not> truthy (get_property (logEntryCache s) (insertId e))
           then (Inr (),
                 s\<lparr>console := console s @ [EntryLine e line],
                   logEntryCache := set_property (logEntryCache s) (insertId e) (JBool True)\<rparr>)
           else (Inr (), s)))"

text \<open>
  The condition of line 346, \<open>i < 50 && entries ? i < entries.length : i < 0\<close>, which
  JavaScript reads as \<open>(i < 50 && entries) ? ... : ...\<close>; an array is truthy.
\<close>

definition loop_cond :: "nat \<Rightarrow> entry list \<Rightarrow> bool" where
  "loop_cond i entries = (if i < 50 \<and> True then i < length entries else i < 0)"

function for_loop ::
  "environment \<Rightarrow> bool \<Rightarrow> entry list \<Rightarrow> nat \<Rightarrow> session \<Rightarrow> (error + unit) \<times> session" where
  "for_loop M json entries i s =
     (if loop_cond i entries then
        (case loop_body M json (entries ! i) s of
           (Inl err, s') \<Rightarrow> (Inl err, s')
         | (Inr u, s') \<Rightarrow> for_loop M json entries (Suc i) s')
      else (Inr (), s))"
  by pat_completeness auto
termination
  by (relation "measure (\<lambda>(M, json, entries, i, s). length entries - i)")
     (auto simp: loop_cond_def split: if_splits)

declare for_loop.simps [simp del]

text \<open>
  The argument of \<open>printLogs\<close>: the default \<open>[]\<close> replaces \<open>undefined\<close> only, so \<open>null\<close>
  reaches \<open>entries.reverse()\<close> and throws.
\<close>

datatype 'a arg = Undefined | Null | Array "'a list"

definition printLogs ::
  "environment \<Rightarrow> bool \<Rightarrow> entry arg \<Rightarrow> session \<Rightarrow> (error + unit) \<times> session" where
  "printLogs M json entries s =
     (case entries of
        Undefined \<Rightarrow> for_loop M json (rev []) 0 s
      | Null \<Rightarrow> (Inl TypeError, s)
      | Array es \<Rightarrow> for_loop M json (rev es) 0 s)"

text \<open>
  The loop body run over a list of entries, stopping at the first exception: the loop as
  a structural recursion.
\<close>

fun each :: "environment \<Rightarrow> bool \<Rightarrow> entry list \<Rightarrow> session \<Rightarrow> (error + unit) \<times> session" where
  "each M json [] s = (Inr (), s)"
| "each M json (e # es) s =
     (case loop_body M json e s of
        (Inl err, s') \<Rightarrow> (Inl err, s')
      | (Inr u, s') \<Rightarrow> each M json es s')"

text \<open>
  A session: the batches given to \<open>printLogs\<close> one after the other, all on the cache of
  the one call of \<open>logs\<close>. An exception ends its own call of \<open>printLogs\<close> only.
\<close>

fun run_session :: "environment \<Rightarrow> bool \<Rightarrow> entry arg list \<Rightarrow> session \<Rightarrow> session" where
  "run_session M json [] s = s"
| "run_session M json (b # bs) s = run_session M json bs (snd (printLogs M json b s))"

section \<open>fetchAndPrintLogs and the watch mode\<close>

subsection \<open>Dates\<close>

text \<open>
  A \<open>Date\<close> is its time value, the milliseconds since the epoch. \<open>getSeconds\<close> and
  \<open>setSeconds\<close> work on the fields of local time, as ECMAScript defines them:
  \<open>LocalTime(t) = t + LocalTZA(t, true)\<close> and \<open>UTC(t) = t - LocalTZA(t, false)\<close>.
  \<open>setSeconds(sec)\<close> keeps the day, hour, minute and millisecond of the local time,
  puts \<open>sec\<close> in place of its seconds (a value outside 0 to 59 carries over) and converts
  the result back.
\<close>

definition LocalTime :: "environment \<Rightarrow> int \<Rightarrow> int" where
  "LocalTime M t = t + LocalTZA M t True"

definition UTC :: "environment \<Rightarrow> int \<Rightarrow> int" where
  "UTC M t = t - LocalTZA M t False"

definition SecFromTime :: "int \<Rightarrow> int" where
  "SecFromTime t = (t div 1000) mod 60"

definition getSeconds :: "environment \<Rightarrow> int \<Rightarrow> int" where
  "getSeconds M t = SecFromTime (LocalTime M t)"

definition setSeconds :: "environment \<Rightarrow> int \<Rightarrow> int \<Rightarrow> int" where
  "setSeconds M t sec =
     (let l = LocalTime M t;
          day = l div 86400000;
          hour = (l div 3600000) mod 24;
          minute = (l div 60000) mod 60;
          ms = l mod 1000
      in UTC M (day * 86400000 + (hour * 3600000 + minute * 60000 + sec * 1000 + ms)))"

text \<open>Year, month and day of a day number counted from 1970-01-01.\<close>

definition civil_from_days :: "int \<Rightarrow> int \<times> int \<times> int" where
  "civil_from_days days =
     (let z = days + 719468;
          era = z div 146097;
          doe = z mod 146097;
          yoe = (doe - doe div 1460 + doe div 36524 - doe div 146096) div 365;
          doy = doe - (365 * yoe + yoe div 4 - yoe div 100);
          mp = (5 * doy + 2) div 153;
          d = doy - (153 * mp + 2) div 5 + 1;
          m = (if mp < 10 then mp + 3 else mp - 9);
          y = yoe + era * 400
      in (if m \<le> 2 then y + 1 else y, m, d))"

definition year_text :: "int \<Rightarrow> string" where
  "year_text y =
     (if 0 \<le> y \<and> y \<le> 9999 then zero_filled 4 (nat y)
      else (if y < 0 then ''-'' else ''+'') @ zero_filled 6 (nat (abs y)))"

definition toISOString :: "int \<Rightarrow> string" where
  "toISOString t =
     (case civil_from_days (t div 86400000) of
        (y, m, d) \<Rightarrow>
          (let ms = t mod 86400000
           in year_text y @ ''-'' @ zero_filled 2 (nat m) @ ''-'' @ zero_filled 2 (nat d)
              @ ''T'' @ zero_filled 2 (nat (ms div 3600000))
              @ '':'' @ zero_filled 2 (nat (ms div 60000 mod 60))
              @ '':'' @ zero_filled 2 (nat (ms div 1000 mod 60))
              @ ''.'' @ zero_filled 3 (nat (ms mod 1000)) @ ''Z''))"

subsection \<open>One fetch\<close>

text \<open>The response of \<open>logger.entries.list\<close>; \<open>entries\<close> is \<open>logs.data.entries\<close>.\<close>

record response =
  status :: nat
  statusText :: string
  entries :: "entry arg"

text \<open>
  Modelled from the spec: \<open>logError\<close>, a function of \<^verbatim>\<open>./utils\<close> that is not among the
  sources. The spec has every fetch error reported once and not retried, and leaves the
  end of the process to the command layer around the core; the callers in the source
  rely on \<open>logError\<close> not returning (lines 681 to 688, 907 to 910 and 1049 to 1051 go on
  with code that fails, or undoes the error, if it returns). So
  \<open>logError(null, description)\<close> writes the description and ends the process, and in a
  process that has ended nothing is written.
\<close>

definition logError :: "string \<Rightarrow> session \<Rightarrow> session" where
  "logError description s =
     (if exited s then s
      else s\<lparr>console := console s @ [Error description], exited := True\<rparr>)"

text \<open>
  The \<open>switch\<close> of lines 464 to 474. No case ends with \<open>break\<close>, so control would run
  from the matching case through every case below it; the first call of \<open>logError\<close>
  ends the process.
\<close>

definition status_switch :: "environment \<Rightarrow> bool \<Rightarrow> response \<Rightarrow> session \<Rightarrow> session" where
  "status_switch M isLocalCreds logs s =
     (let s1 = (if status logs = 401
                then logError (if isLocalCreds then ERROR_UNAUTHENTICATED_LOCAL M
                               else ERROR_UNAUTHENTICATED M) s
                else s);
          s2 = (if status logs = 401 \<or> status logs = 403
                then logError (if isLocalCreds then ERROR_PERMISSION_DENIED_LOCAL M
                               else ERROR_PERMISSION_DENIED M) s1
                else s1)
      in logError (''('' @ decimal (status logs) @ '') Error: '' @ statusText logs) s2)"

definition dquote :: char where
  "dquote = CHR 0x22"

text \<open>The filter of lines 448 to 451; a \<open>Date\<close> object is truthy.\<close>

definition time_filter :: "int option \<Rightarrow> string" where
  "time_filter startDate =
     (case startDate of
        None \<Rightarrow> []
      | Some d \<Rightarrow> ''timestamp >= '' @ [dquote] @ toISOString d @ [dquote])"

text \<open>
  \<open>fetchAndPrintLogs(startDate)\<close>, given the response \<open>logs\<close> that the awaited call of
  \<open>logger.entries.list\<close> returns.
\<close>

definition fetchAndPrintLogs ::
  "environment \<Rightarrow> bool \<Rightarrow> bool \<Rightarrow> string \<Rightarrow> int option \<Rightarrow> response \<Rightarrow> session
     \<Rightarrow> (error + unit) \<times> session" where
  "fetchAndPrintLogs M json isLocalCreds projectId startDate logs s =
     (let req = \<lparr>resourceNames = [''projects/'' @ projectId],
                 filter' = time_filter startDate,
                 orderBy = ''timestamp desc''\<rparr>;
          s1 = s\<lparr>requests := requests s @ [req]\<rparr>;
          s2 = s1\<lparr>console := console s1 @ [Log (time_filter startDate)]\<rparr>
      in if status logs \<noteq> 200 then (Inr (), status_switch M isLocalCreds logs s2)
         else printLogs M json (entries logs) s2)"

subsection \<open>The command\<close>

text \<open>
  The options of \<open>logs\<close>. The command line may put further properties on the object;
  they are the extension of the record.
\<close>

record cmd =
  json :: bool
  open' :: bool
  setup' :: bool
  watch :: bool

record cmd_poll = cmd +
  pollIntervalMs :: int

definition POLL_INTERVAL :: int where
  "POLL_INTERVAL = 6000"

text \<open>
  What \<open>logs\<close> does once the project is known, lines 434 to 491: open the logs page, or
  fetch once, or \<open>setInterval(callback, POLL_INTERVAL)\<close>.
\<close>

datatype plan = OpenLogs | FetchOnce | SetInterval int

definition logs_plan :: "'a cmd_scheme \<Rightarrow> plan" where
  "logs_plan c =
     (if open' c then OpenLogs
      else if watch c then SetInterval POLL_INTERVAL
      else FetchOnce)"

text \<open>The callback of \<open>setInterval\<close>, lines 485 to 487, run at the time \<open>now\<close>.\<close>

definition tick_startDate :: "environment \<Rightarrow> int \<Rightarrow> int" where
  "tick_startDate M now = setSeconds M now (getSeconds M now - (10 * POLL_INTERVAL) div 1000)"

definition tick ::
  "environment \<Rightarrow> 'a cmd_scheme \<Rightarrow> bool \<Rightarrow> string \<Rightarrow> int \<Rightarrow> response \<Rightarrow> session
     \<Rightarrow> (error + unit) \<times> session" where
  "tick M c isLocalCreds projectId now logs s =
     fetchAndPrintLogs M (json c) isLocalCreds projectId (Some (tick_startDate M now)) logs s"

text \<open>
  The watch mode over the ticks of the timer, each with its time and the response its
  fetch gets. The timer stops with the process.
\<close>

fun run_watch ::
  "environment \<Rightarrow> 'a cmd_scheme \<Rightarrow> bool \<Rightarrow> string \<Rightarrow> (int \<times> response) list \<Rightarrow> session
     \<Rightarrow> session" where
  "run_watch M c isLocalCreds projectId [] s = s"
| "run_watch M c isLocalCreds projectId ((now, logs) # ticks) s =
     (if exited s then s
      else run_watch M c isLocalCreds projectId ticks
             (snd (tick M c isLocalCreds projectId now logs s)))"

section \<open>Notions for stating the properties\<close>

text \<open>The array that the loop of \<open>printLogs\<close> runs over is \<open>take 50 (rev (entries_of a))\<close>.\<close>

fun entries_of :: "entry arg \<Rightarrow> entry list" where
  "entries_of Undefined = []"
| "entries_of Null = []"
| "entries_of (Array es) = es"

text \<open>What one call of \<open>printLogs\<close> writes, and the entries of the lines it prints.\<close>

definition written_by :: "environment \<Rightarrow> bool \<Rightarrow> entry arg \<Rightarrow> session \<Rightarrow> event list" where
  "written_by M j a s = drop (length (console s)) (console (snd (printLogs M j a s)))"

definition printed_by :: "environment \<Rightarrow> bool \<Rightarrow> entry arg \<Rightarrow> session \<Rightarrow> entry list" where
  "printed_by M j a s = printed (written_by M j a s)"

text \<open>An entry that renders without an exception, and its line.\<close>

definition renders :: "environment \<Rightarrow> bool \<Rightarrow> entry \<Rightarrow> bool" where
  "renders M j e = (case render M j e of Inr l \<Rightarrow> True | Inl err \<Rightarrow> False)"

definition line :: "environment \<Rightarrow> bool \<Rightarrow> entry \<Rightarrow> string" where
  "line M j e = (case render M j e of Inr l \<Rightarrow> l | Inl err \<Rightarrow> [])"

text \<open>
  The order of the timestamps along a list, for a relation \<open>R\<close> on timestamps read as
  "is before": in \<open>descending_by R\<close> every entry is after all that follow it, in
  \<open>ascending_by R\<close> it is before them.
\<close>

definition descending_by :: "(string \<Rightarrow> string \<Rightarrow> bool) \<Rightarrow> entry list \<Rightarrow> bool" where
  "descending_by R es = sorted_wrt (\<lambda>a b. R (timestamp b) (timestamp a)) es"

definition ascending_by :: "(string \<Rightarrow> string \<Rightarrow> bool) \<Rightarrow> entry list \<Rightarrow> bool" where
  "ascending_by R es = sorted_wrt (\<lambda>a b. R (timestamp a) (timestamp b)) es"

text \<open>
  The cache of a session holds \<open>true\<close> only, under the identifiers of the printed
  entries, none of which is the name of an inherited member.
\<close>

definition own_true :: "object \<Rightarrow> bool" where
  "own_true c \<longleftrightarrow> (\<forall>k v. c k = Some v \<longrightarrow> v = JBool True)"

definition cache_inv :: "session \<Rightarrow> bool" where
  "cache_inv s \<longleftrightarrow>
     distinct (map insertId (printed (console s)))
     \<and> (\<forall>e \<in> set (printed (console s)).
           logEntryCache s (insertId e) = Some (JBool True)
           \<and> insertId e \<notin> set Object_prototype_keys)
     \<and> own_true (logEntryCache s)"

subsection \<open>Sample data\<close>

definition sample_environment :: environment where
  "sample_environment =
     \<lparr>ERROR_NO_FUNCTION_NAME = ''N/A'',
      ERROR_PAYLOAD_UNKNOWN = ''Unknown Payload'',
      ERROR_UNAUTHENTICATED = ''Error retrieving access token'',
      ERROR_UNAUTHENTICATED_LOCAL = ''Error retrieving access token (local credentials)'',
      ERROR_PERMISSION_DENIED = ''Permission denied'',
      ERROR_PERMISSION_DENIED_LOCAL = ''Permission denied (local credentials)'',
      LOG_STACKDRIVER_SETUP = ''Setting up StackDriver Logging.'',
      chalk_enabled = True,
      LocalTZA = (\<lambda>t isUTC. 0)\<rparr>"

text \<open>
  The same on a machine in New York in 2019: five hours behind UTC, four from
  2019-03-10T07:00:00Z to 2019-11-03T06:00:00Z. A local time that the clocks skip or show
  twice is read with the offset from before the change.
\<close>

definition new_york_2019 :: environment where
  "new_york_2019 =
     sample_environment
       \<lparr>LocalTZA :=
          (\<lambda>t isUTC.
             if isUTC
             then (if 1552201200000 \<le> t \<and> t < 1572760800000 then - 14400000 else - 18000000)
             else (if 1552186800000 \<le> t \<and> t < 1572746400000 then - 14400000
                   else - 18000000))\<rparr>"

definition sample_entry :: "string \<Rightarrow> string \<Rightarrow> entry" where
  "sample_entry i t =
     \<lparr>severity = Some ''INFO'', timestamp = t,
      resource = Some \<lparr>labels = Some \<lparr>function_name = Some ''myFunction''\<rparr>\<rparr>,
      textPayload = Some ''hello'', protoPayload = None, jsonPayload = None,
      insertId = i, stringified = ''{}''\<rparr>"

text \<open>Three entries, newest first.\<close>

definition batch3 :: "entry list" where
  "batch3 =
     [sample_entry ''id3'' ''2019-01-01T00:00:03.000Z'',
      sample_entry ''id2'' ''2019-01-01T00:00:02.000Z'',
      sample_entry ''id1'' ''2019-01-01T00:00:01.000Z'']"

text \<open>Two entries with the same timestamp.\<close>

definition ties2 :: "entry list" where
  "ties2 =
     [sample_entry ''id2'' ''2019-01-01T00:00:01.000Z'',
      sample_entry ''id1'' ''2019-01-01T00:00:01.000Z'']"

text \<open>A batch of \<open>n\<close> entries within one minute, newest first.\<close>

definition burst :: "nat \<Rightarrow> entry list" where
  "burst n =
     map (\<lambda>k. sample_entry (''id'' @ decimal k) (''2019-01-01T00:00:'' @ zero_filled 2 k @ ''.000Z''))
       (rev [0..<n])"

text \<open>An entry whose proto payload is an audit-log record.\<close>

definition audit_entry :: entry where
  "audit_entry =
     \<lparr>severity = Some ''NOTICE'', timestamp = ''2019-01-01T00:00:01.000Z'',
      resource = Some \<lparr>labels = Some \<lparr>function_name = None\<rparr>\<rparr>,
      textPayload = None,
      protoPayload = Some \<lparr>at_type = Some AuditLog, methodName = Some ''SetIamPolicy''\<rparr>,
      jsonPayload = None, insertId = ''audit1'', stringified = ''{}''\<rparr>"

text \<open>Options with \<open>pollIntervalMs\<close> set.\<close>

definition cmd_poll_1000 :: cmd_poll where
  "cmd_poll_1000 =
     \<lparr>json = False, open' = False, setup' = False, watch = True, pollIntervalMs = 1000\<rparr>"

subsection \<open>Names for the statements\<close>

text \<open>The five own keys of \<open>coloredStringMap\<close>.\<close>

definition known_severities :: "string list" where
  "known_severities = [''ERROR'', ''INFO'', ''DEBUG'', ''NOTICE'', ''WARNING'']"

text \<open>The setup message as lines 363 and 367 leave it: padded to 20 when it is not empty.\<close>

definition setup_text :: "environment \<Rightarrow> string" where
  "setup_text M =
     (if LOG_STACKDRIVER_SETUP M = [] then [] else padEnd (LOG_STACKDRIVER_SETUP M) 20)"

section \<open>Properties of the loop\<close>

lemma for_loop_each:
  "for_loop M j es i s = each M j (take (50 - i) (drop i es)) s"
proof (induction M j es i s rule: for_loop.induct)
  case (1 M j es i s)
  show ?case
  proof (cases "loop_cond i es")
    case False
    then have "50 \<le> i \<or> length es \<le> i"
      by (auto simp: loop_cond_def split: if_splits)
    then have "take (50 - i) (drop i es) = []"
      by auto
    then have "each M j (take (50 - i) (drop i es)) s = (Inr (), s)"
      by (simp only: each.simps)
    with False show ?thesis
      by (simp add: for_loop.simps [of M j es i s])
  next
    case True
    then have i: "i < 50" "i < length es"
      by (auto simp: loop_cond_def split: if_splits)
    then have "50 - i = Suc (50 - Suc i)"
      by simp
    then have split: "take (50 - i) (drop i es) = es ! i # take (50 - Suc i) (drop (Suc i) es)"
      using i(2) by (simp add: Cons_nth_drop_Suc [symmetric])
    show ?thesis
    proof (cases "loop_body M j (es ! i) s")
      case (Pair r s')
      show ?thesis
      proof (cases r)
        case (Inl err)
        with Pair True split show ?thesis
          by (simp add: for_loop.simps [of M j es i s])
      next
        case (Inr u)
        with Pair True have "for_loop M j es (Suc i) s' = each M j (take (50 - Suc i) (drop (Suc i) es)) s'"
          using "1.IH" by simp
        with Pair True split Inr show ?thesis
          by (simp add: for_loop.simps [of M j es i s])
      qed
    qed
  qed
qed

lemma printLogs_each:
  "printLogs M j a s =
     (if a = Null then (Inl TypeError, s) else each M j (take 50 (rev (entries_of a))) s)"
  by (cases a) (simp_all add: printLogs_def for_loop_each)

lemma printed_append: "printed (xs @ ys) = printed xs @ printed ys"
  by (induction xs rule: printed.induct) simp_all

lemma loop_body_throw:
  "render M j e = Inl err \<Longrightarrow> loop_body M j e s = (Inl err, s)"
  by (simp add: loop_body_def)

lemma loop_body_skip:
  "truthy (get_property (logEntryCache s) (insertId e)) \<Longrightarrow> snd (loop_body M j e s) = s"
  by (simp add: loop_body_def split: sum.splits)

lemma loop_body_print:
  "render M j e = Inr l \<Longrightarrow> \<not> truthy (get_property (logEntryCache s) (insertId e)) \<Longrightarrow>
   loop_body M j e s =
     (Inr (), s\<lparr>console := console s @ [EntryLine e l],
               logEntryCache := set_property (logEntryCache s) (insertId e) (JBool True)\<rparr>)"
  by (simp add: loop_body_def)

lemma loop_body_cases:
  obtains (same) "snd (loop_body M j e s) = s"
  | (print) l where "render M j e = Inr l"
      "\<not> truthy (get_property (logEntryCache s) (insertId e))"
      "loop_body M j e s =
         (Inr (), s\<lparr>console := console s @ [EntryLine e l],
                   logEntryCache := set_property (logEntryCache s) (insertId e) (JBool True)\<rparr>)"
proof (cases "render M j e")
  case (Inl err)
  then have "snd (loop_body M j e s) = s"
    by (simp add: loop_body_throw)
  then show ?thesis by (rule same)
next
  case (Inr l)
  show ?thesis
  proof (cases "truthy (get_property (logEntryCache s) (insertId e))")
    case True
    then show ?thesis using same loop_body_skip by blast
  next
    case False
    with Inr show ?thesis using print loop_body_print by blast
  qed
qed

lemma each_Cons:
  "each M j (e # es) s =
     (if fst (loop_body M j e s) = Inr () then each M j es (snd (loop_body M j e s))
      else loop_body M j e s)"
  by (cases "loop_body M j e s"; cases "fst (loop_body M j e s)") auto

lemma loop_body_fst_print:
  "console (snd (loop_body M j e s)) \<noteq> console s \<Longrightarrow> fst (loop_body M j e s) = Inr ()"
  by (cases rule: loop_body_cases [of M j e s]) simp_all

lemma each_subseq:
  "\<exists>new. console (snd (each M j es s)) = console s @ new
     \<and> subseq (printed new) es \<and> length (printed new) = length new"
proof (induction es arbitrary: s)
  case Nil
  show ?case by simp
next
  case (Cons e es)
  obtain r s1 where b: "loop_body M j e s = (r, s1)"
    by (cases "loop_body M j e s")
  have "\<exists>n1. console s1 = console s @ n1 \<and> subseq (printed n1) [e]
          \<and> length (printed n1) = length n1"
  proof (cases rule: loop_body_cases [of M j e s])
    case same
    with b have "console s1 = console s @ []" by simp
    then show ?thesis by fastforce
  next
    case (print l)
    with b have "console s1 = console s @ [EntryLine e l]" by auto
    then show ?thesis by fastforce
  qed
  then obtain n1 where n1: "console s1 = console s @ n1" "subseq (printed n1) [e]"
      "length (printed n1) = length n1"
    by blast
  show ?case
  proof (cases r)
    case (Inl err)
    with b have "snd (each M j (e # es) s) = s1" by simp
    moreover have "subseq (printed n1) (e # es)"
      using n1(2) subseq_rev_drop_many [of "printed n1" "[e]" es] by simp
    ultimately show ?thesis using n1 by auto
  next
    case (Inr u)
    with b have eq: "snd (each M j (e # es) s) = snd (each M j es s1)" by simp
    from Cons.IH [of s1] obtain n2 where n2: "console (snd (each M j es s1)) = console s1 @ n2"
        "subseq (printed n2) es" "length (printed n2) = length n2"
      by blast
    have "subseq (printed n1 @ printed n2) ([e] @ es)"
      using n1(2) n2(2) by (rule list_emb_append_mono)
    then have "subseq (printed (n1 @ n2)) (e # es)"
      by (simp add: printed_append)
    moreover have "console (snd (each M j (e # es) s)) = console s @ (n1 @ n2)"
      using eq n1(1) n2(1) by simp
    moreover have "length (printed (n1 @ n2)) = length (n1 @ n2)"
      using n1(3) n2(3) by (simp add: printed_append)
    ultimately show ?thesis by blast
  qed
qed

lemma sorted_wrt_subseq:
  "subseq xs ys \<Longrightarrow> sorted_wrt R ys \<Longrightarrow> sorted_wrt R xs"
proof (induction rule: list_emb.induct)
  case (list_emb_Nil ys)
  show ?case by simp
next
  case (list_emb_Cons xs ys y)
  then show ?case by simp
next
  case (list_emb_Cons2 x y xs ys)
  then have "set xs \<subseteq> set ys"
    by (auto elim: list_emb_set)
  with list_emb_Cons2 show ?case by auto
qed

lemma proto_in_keys: "''__proto__'' \<in> set Object_prototype_keys"
  by (simp add: Object_prototype_keys_def)

lemma falsy_not_inherited:
  "own_true c \<Longrightarrow> \<not> truthy (get_property c k) \<Longrightarrow> k \<notin> set Object_prototype_keys"
proof (cases "c k")
  case None
  then show "\<not> truthy (get_property c k) \<Longrightarrow> k \<notin> set Object_prototype_keys"
    by (auto simp: get_property_def)
next
  case (Some v)
  assume "own_true c" and "\<not> truthy (get_property c k)"
  with Some have "v = JBool True" "\<not> truthy v"
    by (simp_all add: get_property_def own_true_def)
  then show "k \<notin> set Object_prototype_keys"
    by simp
qed

lemma falsy_not_proto:
  "own_true c \<Longrightarrow> \<not> truthy (get_property c k) \<Longrightarrow> k \<noteq> ''__proto__''"
  using falsy_not_inherited proto_in_keys by blast

lemma own_true_set: "own_true c \<Longrightarrow> own_true (set_property c k (JBool True))"
  by (auto simp: own_true_def set_property_def)

lemma own_true_empty: "own_true Map.empty"
  by (simp add: own_true_def)

lemma falsy_not_true:
  "\<not> truthy (get_property c k) \<Longrightarrow> c k \<noteq> Some (JBool True)"
  by (auto simp: get_property_def)

lemma get_set_same:
  "k \<noteq> ''__proto__'' \<Longrightarrow> get_property (set_property c k v) k = v"
  by (simp add: get_property_def set_property_def)

lemma get_set_other:
  "k' \<noteq> k \<Longrightarrow> get_property (set_property c k v) k' = get_property c k'"
  by (simp add: get_property_def set_property_def)

lemma truthy_set_mono:
  "truthy (get_property c k') \<Longrightarrow> truthy (get_property (set_property c k (JBool True)) k')"
proof (cases "k' = k")
  case False
  assume "truthy (get_property c k')"
  with False show ?thesis
    by (simp add: get_property_def set_property_def)
next
  case True
  assume t: "truthy (get_property c k')"
  show ?thesis
  proof (cases "k = ''__proto__''")
    case True
    with t show ?thesis by (simp add: set_property_def)
  next
    case False
    with True show ?thesis by (simp add: get_property_def set_property_def)
  qed
qed

lemma inherited_truthy:
  "own_true c \<Longrightarrow> k \<in> set Object_prototype_keys \<Longrightarrow> truthy (get_property c k)"
  using falsy_not_inherited by blast

lemma cache_inv_session0: "cache_inv session0"
  by (simp add: cache_inv_def session0_def own_true_empty)

lemma loop_body_inv:
  assumes "cache_inv s"
  shows "cache_inv (snd (loop_body M j e s))"
proof (cases rule: loop_body_cases [of M j e s])
  case same
  with assms show ?thesis by simp
next
  case (print l)
  let ?k = "insertId e"
  have own: "own_true (logEntryCache s)"
    using assms by (simp add: cache_inv_def)
  have k: "?k \<notin> set Object_prototype_keys" "?k \<noteq> ''__proto__''"
      "logEntryCache s ?k \<noteq> Some (JBool True)"
    using print(2) own falsy_not_inherited falsy_not_proto falsy_not_true by blast+
  have own': "own_true ((logEntryCache s)(?k \<mapsto> JBool True))"
    using own by (auto simp: own_true_def)
  have new: "?k \<notin> insertId ` set (printed (console s))"
    using assms k(3) by (auto simp: cache_inv_def)
  have upd: "set_property (logEntryCache s) ?k (JBool True) = (logEntryCache s)(?k \<mapsto> JBool True)"
    using k(2) by (simp add: set_property_def)
  show ?thesis
    using assms new k(1) own'
    by (auto simp: print(3) upd cache_inv_def printed_append)
qed

lemma each_inv: "cache_inv s \<Longrightarrow> cache_inv (snd (each M j es s))"
proof (induction es arbitrary: s)
  case Nil
  then show ?case by simp
next
  case (Cons e es)
  have "cache_inv (snd (loop_body M j e s))"
    using Cons.prems by (rule loop_body_inv)
  then show ?case
    using Cons.IH [of "snd (loop_body M j e s)"] by (simp add: each_Cons del: each.simps)
qed

lemma printLogs_inv: "cache_inv s \<Longrightarrow> cache_inv (snd (printLogs M j a s))"
  by (simp add: printLogs_each each_inv)

lemma run_session_inv: "cache_inv s \<Longrightarrow> cache_inv (run_session M j bs s)"
  by (induction bs arbitrary: s) (simp_all add: printLogs_inv)

lemma loop_body_truthy_mono:
  "truthy (get_property (logEntryCache s) k) \<Longrightarrow>
   truthy (get_property (logEntryCache (snd (loop_body M j e s))) k)"
  by (cases rule: loop_body_cases [of M j e s]) (simp_all add: truthy_set_mono)

lemma each_truthy_mono:
  "truthy (get_property (logEntryCache s) k) \<Longrightarrow>
   truthy (get_property (logEntryCache (snd (each M j es s))) k)"
proof (induction es arbitrary: s)
  case Nil
  then show ?case by simp
next
  case (Cons e es)
  have "truthy (get_property (logEntryCache (snd (loop_body M j e s))) k)"
    using Cons.prems by (rule loop_body_truthy_mono)
  then show ?case
    using Cons.IH [of "snd (loop_body M j e s)"] by (simp add: each_Cons del: each.simps)
qed

lemma each_seen:
  "\<forall>e \<in> set es. truthy (get_property (logEntryCache s) (insertId e)) \<Longrightarrow>
   snd (each M j es s) = s"
proof (induction es arbitrary: s)
  case Nil
  show ?case by simp
next
  case (Cons e es)
  then have "snd (loop_body M j e s) = s"
    by (simp add: loop_body_skip)
  with Cons show ?case
    by (simp add: each_Cons del: each.simps)
qed

lemma each_fresh:
  assumes "list_all (renders M j) es"
    and "distinct (map insertId es)"
    and "\<forall>e \<in> set es. \<not> truthy (get_property (logEntryCache s) (insertId e))"
    and "own_true (logEntryCache s)"
  shows "fst (each M j es s) = Inr ()
     \<and> console (snd (each M j es s)) = console s @ map (\<lambda>e. EntryLine e (line M j e)) es
     \<and> (\<forall>e \<in> set es. truthy (get_property (logEntryCache (snd (each M j es s))) (insertId e)))"
  using assms
proof (induction es arbitrary: s)
  case Nil
  show ?case by simp
next
  case (Cons e es)
  let ?s1 = "s\<lparr>console := console s @ [EntryLine e (line M j e)],
               logEntryCache := set_property (logEntryCache s) (insertId e) (JBool True)\<rparr>"
  have r: "render M j e = Inr (line M j e)"
    using Cons.prems(1) by (auto simp: renders_def line_def split: sum.splits)
  have f: "\<not> truthy (get_property (logEntryCache s) (insertId e))"
    using Cons.prems(3) by simp
  have b: "loop_body M j e s = (Inr (), ?s1)"
    using r f by (rule loop_body_print)
  have e1: "truthy (get_property (logEntryCache ?s1) (insertId e))"
    using falsy_not_proto [OF Cons.prems(4) f] by (simp add: get_set_same)
  have o1: "own_true (logEntryCache ?s1)"
    using Cons.prems(4) by (simp add: own_true_set)
  have rest: "\<forall>x \<in> set es. \<not> truthy (get_property (logEntryCache ?s1) (insertId x))"
  proof
    fix x assume x: "x \<in> set es"
    then have "insertId x \<in> insertId ` set es"
      by (rule imageI)
    moreover have "insertId e \<notin> insertId ` set es"
      using Cons.prems(2) by simp
    ultimately have "insertId x \<noteq> insertId e"
      by metis
    then show "\<not> truthy (get_property (logEntryCache ?s1) (insertId x))"
      using Cons.prems(3) x by (simp add: get_set_other)
  qed
  have ih: "fst (each M j es ?s1) = Inr ()
     \<and> console (snd (each M j es ?s1)) = console ?s1 @ map (\<lambda>e. EntryLine e (line M j e)) es
     \<and> (\<forall>e \<in> set es. truthy (get_property (logEntryCache (snd (each M j es ?s1))) (insertId e)))"
    using Cons.IH [of ?s1] Cons.prems(1,2) rest o1 by simp
  have e2: "truthy (get_property (logEntryCache (snd (each M j es ?s1))) (insertId e))"
    using e1 by (rule each_truthy_mono)
  have step: "each M j (e # es) s = each M j es ?s1"
    using b by simp
  show ?case
    unfolding step using ih e2 by simp
qed

lemma printed_lines: "printed (map (\<lambda>e. EntryLine e (f e)) es) = es"
  by (induction es) simp_all

lemma printLogs_new:
  "\<exists>new. console (snd (printLogs M j a s)) = console s @ new
     \<and> subseq (printed new) (take 50 (rev (entries_of a)))
     \<and> length (printed new) = length new"
proof (cases "a = Null")
  case True
  then have "console (snd (printLogs M j a s)) = console s @ []"
    by (simp add: printLogs_each)
  then show ?thesis by fastforce
next
  case False
  then show ?thesis
    using each_subseq [of M j "take 50 (rev (entries_of a))" s]
    by (simp add: printLogs_each)
qed

lemma printLogs_written:
  "console (snd (printLogs M j a s)) = console s @ written_by M j a s"
  using printLogs_new [of M j a s] by (auto simp: written_by_def)

lemma printed_by_subseq:
  "subseq (printed_by M j a s) (take 50 (rev (entries_of a)))"
  using printLogs_new [of M j a s] by (auto simp: written_by_def printed_by_def)

lemma written_all_lines:
  "length (written_by M j a s) = length (printed_by M j a s)"
  using printLogs_new [of M j a s] by (auto simp: written_by_def printed_by_def)

lemma written_by_le_50: "length (written_by M j a s) \<le> 50"
proof -
  have "length (printed_by M j a s) \<le> length (take 50 (rev (entries_of a)))"
    using printed_by_subseq by (rule list_emb_length)
  then show ?thesis
    by (simp add: written_all_lines)
qed

lemma printLogs_fresh:
  assumes "list_all (renders M j) es"
    and "distinct (map insertId es)"
    and "list_all (\<lambda>e. insertId e \<notin> set Object_prototype_keys) es"
  shows "printLogs M j (Array es) session0 =
     (Inr (), snd (printLogs M j (Array es) session0))"
    and "console (snd (printLogs M j (Array es) session0)) =
       map (\<lambda>e. EntryLine e (line M j e)) (take 50 (rev es))"
    and "\<forall>e \<in> set (take 50 (rev es)).
       truthy (get_property (logEntryCache (snd (printLogs M j (Array es) session0))) (insertId e))"
proof -
  let ?xs = "take 50 (rev es)"
  have sub: "set ?xs \<subseteq> set es"
    using set_take_subset [of 50 "rev es"] by simp
  have 1: "list_all (renders M j) ?xs"
    using assms(1) sub by (auto simp: list_all_iff)
  have "distinct (map insertId (rev es))"
    using assms(2) by (simp add: rev_map [symmetric])
  then have 2: "distinct (map insertId ?xs)"
    by (simp add: take_map [symmetric] distinct_take)
  have 3: "\<forall>e \<in> set ?xs. \<not> truthy (get_property (logEntryCache session0) (insertId e))"
    using assms(3) sub by (auto simp: list_all_iff session0_def get_property_def)
  have 4: "own_true (logEntryCache session0)"
    by (simp add: session0_def own_true_empty)
  note f = each_fresh [OF 1 2 3 4]
  show "printLogs M j (Array es) session0 = (Inr (), snd (printLogs M j (Array es) session0))"
    using f by (simp add: printLogs_each prod_eq_iff)
  show "console (snd (printLogs M j (Array es) session0)) =
       map (\<lambda>e. EntryLine e (line M j e)) (take 50 (rev es))"
    using f by (simp add: printLogs_each session0_def)
  show "\<forall>e \<in> set (take 50 (rev es)).
       truthy (get_property (logEntryCache (snd (printLogs M j (Array es) session0))) (insertId e))"
    using f by (simp add: printLogs_each)
qed

lemma printLogs_seen:
  "\<forall>e \<in> set (take 50 (rev es)). truthy (get_property (logEntryCache s) (insertId e)) \<Longrightarrow>
   snd (printLogs M j (Array es) s) = s"
  by (simp add: printLogs_each each_seen)

lemma twice_fresh:
  assumes "list_all (renders M j) es"
    and "distinct (map insertId es)"
    and "list_all (\<lambda>e. insertId e \<notin> set Object_prototype_keys) es"
  shows "console (run_session M j [Array es, Array es] session0) =
     map (\<lambda>e. EntryLine e (line M j e)) (take 50 (rev es))"
proof -
  let ?s1 = "snd (printLogs M j (Array es) session0)"
  have "snd (printLogs M j (Array es) ?s1) = ?s1"
    using printLogs_fresh(3) [OF assms] by (rule printLogs_seen)
  then show ?thesis
    using printLogs_fresh(2) [OF assms] by simp
qed

lemma sample_entry_renders: "renders M False (sample_entry i t)"
  by (simp add: renders_def render_def shown_fields_def functionName_def sample_entry_def js_of_def
      payloadData_def)

lemma insertId_sample [simp]: "insertId (sample_entry i t) = i"
  by (simp add: sample_entry_def)

lemma timestamp_sample [simp]: "timestamp (sample_entry i t) = t"
  by (simp add: sample_entry_def)

lemma batch3_ok:
  "list_all (renders M False) batch3"
  "distinct (map insertId batch3)"
  "list_all (\<lambda>e. insertId e \<notin> set Object_prototype_keys) batch3"
  by (simp_all add: batch3_def sample_entry_renders Object_prototype_keys_def)

lemma printed_by_fresh:
  assumes "list_all (renders M j) es"
    and "distinct (map insertId es)"
    and "list_all (\<lambda>e. insertId e \<notin> set Object_prototype_keys) es"
  shows "printed_by M j (Array es) session0 = take 50 (rev es)"
  using printLogs_fresh(2) [OF assms]
  by (simp add: printed_by_def written_by_def session0_def printed_lines)

lemma ascending_rev: "descending_by R es \<Longrightarrow> ascending_by R (rev es)"
  by (simp add: descending_by_def ascending_by_def sorted_wrt_rev)

lemma sorted_wrt_take: "sorted_wrt R xs \<Longrightarrow> sorted_wrt R (take n xs)"
  using sorted_wrt_append [of R "take n xs" "drop n xs"] by simp

lemma printed_by_ascending:
  assumes "descending_by R es"
  shows "ascending_by R (printed_by M j (Array es) s)"
proof -
  have "sorted_wrt (\<lambda>a b. R (timestamp a) (timestamp b)) (take 50 (rev es))"
    using ascending_rev [OF assms] by (simp add: ascending_by_def sorted_wrt_take)
  moreover have "subseq (printed_by M j (Array es) s) (take 50 (rev es))"
    using printed_by_subseq [of M j "Array es" s] by simp
  ultimately show ?thesis
    unfolding ascending_by_def by (rule sorted_wrt_subseq [rotated])
qed

lemma ties2_ok:
  "list_all (renders M False) ties2"
  "distinct (map insertId ties2)"
  "list_all (\<lambda>e. insertId e \<notin> set Object_prototype_keys) ties2"
  by (simp_all add: ties2_def sample_entry_renders Object_prototype_keys_def)

lemma take_50_rev: "take 50 (rev es) = rev (drop (length es - 50) es)"
  by (simp add: take_rev)

lemma burst_renders: "list_all (renders M False) (burst n)"
  by (simp add: burst_def list_all_iff sample_entry_renders)

lemma burst51_ids:
  "distinct (map insertId (burst 51))"
  "list_all (\<lambda>e. insertId e \<notin> set Object_prototype_keys) (burst 51)"
  by code_simp+

lemma burst51_printed:
  "printed_by sample_environment False (Array (burst 51)) session0 = rev (drop 1 (burst 51))"
  using printed_by_fresh [OF burst_renders burst51_ids, of sample_environment]
  by (simp add: take_50_rev burst_def)

lemma each_requests: "requests (snd (each M j es s)) = requests s"
proof (induction es arbitrary: s)
  case Nil
  show ?case by simp
next
  case (Cons e es)
  have "requests (snd (loop_body M j e s)) = requests s"
    by (cases rule: loop_body_cases [of M j e s]) simp_all
  then show ?case
    using Cons.IH [of "snd (loop_body M j e s)"] by (simp add: each_Cons del: each.simps)
qed

lemma printLogs_requests: "requests (snd (printLogs M j a s)) = requests s"
  by (simp add: printLogs_each each_requests)

lemma cache_inv_console:
  "cache_inv s \<Longrightarrow> printed ev = [] \<Longrightarrow> cache_inv (s\<lparr>console := console s @ ev\<rparr>)"
  by (simp add: cache_inv_def printed_append)

lemma cache_inv_requests: "cache_inv s \<Longrightarrow> cache_inv (s\<lparr>requests := r\<rparr>)"
  by (simp add: cache_inv_def)

lemma logError_inv: "cache_inv s \<Longrightarrow> cache_inv (logError d s)"
  by (simp add: logError_def cache_inv_def printed_append)

lemma status_switch_inv: "cache_inv s \<Longrightarrow> cache_inv (status_switch M loc logs s)"
  by (simp add: status_switch_def Let_def logError_inv)

lemma fetchAndPrintLogs_inv:
  assumes "cache_inv s"
  shows "cache_inv (snd (fetchAndPrintLogs M j loc pid sd logs s))"
proof -
  let ?s1 = "s\<lparr>requests := requests s @
      [\<lparr>resourceNames = [''projects/'' @ pid], filter' = time_filter sd,
        orderBy = ''timestamp desc''\<rparr>]\<rparr>"
  let ?s2 = "?s1\<lparr>console := console ?s1 @ [Log (time_filter sd)]\<rparr>"
  have "cache_inv ?s1"
    using assms by (rule cache_inv_requests)
  then have "cache_inv ?s2"
    by (rule cache_inv_console) simp
  then have "cache_inv (status_switch M loc logs ?s2)"
    and "cache_inv (snd (printLogs M j (entries logs) ?s2))"
    by (rule status_switch_inv, rule printLogs_inv)
  then show ?thesis
    by (simp add: fetchAndPrintLogs_def Let_def)
qed

lemma run_watch_inv: "cache_inv s \<Longrightarrow> cache_inv (run_watch M c loc pid ticks s)"
  by (induction ticks arbitrary: s) (auto simp: tick_def fetchAndPrintLogs_inv)

section \<open>Properties of the line, the fetch and the watch mode\<close>

lemma padEnd_length: "length (padEnd x n) = max n (length x)"
  by (simp add: padEnd_def)

lemma coloredSeverity_unknown:
  assumes "sev \<notin> set known_severities" and "sev \<notin> set Object_prototype_keys"
  shows "coloredSeverity M (Some sev) = padEnd sev 20"
proof -
  have "coloredStringMap M (Some sev) sev = None"
    using assms(1) by (simp add: coloredStringMap_def known_severities_def property_key_def js_of_def)
  then have "get_property (coloredStringMap M (Some sev)) sev = JUndefined"
    using assms(2) by (simp add: get_property_def)
  then show ?thesis
    by (simp add: coloredSeverity_def property_key_def js_of_def)
qed


lemma chalk_not_empty: "s \<noteq> [] \<Longrightarrow> chalk M code s \<noteq> []"
  by (simp add: chalk_def)

lemma coloredSeverity_known:
  "coloredSeverity M (Some ''ERROR'') = padEnd (chalk_red M ''ERROR'') 20"
  "coloredSeverity M (Some ''INFO'') = padEnd (chalk_cyan M ''INFO'') 20"
  "coloredSeverity M (Some ''DEBUG'') = padEnd (chalk_green M ''DEBUG'') 20"
  "coloredSeverity M (Some ''NOTICE'') = padEnd (chalk_magenta M ''NOTICE'') 20"
  "coloredSeverity M (Some ''WARNING'') = padEnd (chalk_yellow M ''WARNING'') 20"
  by (simp_all add: coloredSeverity_def coloredStringMap_def property_key_def js_of_def
      get_property_def chalk_red_def chalk_cyan_def chalk_green_def chalk_magenta_def
      chalk_yellow_def chalk_not_empty)

lemma payloadData_object:
  "payloadData M e = PObject p \<Longrightarrow> protoPayload e = Some p"
  by (auto simp: payloadData_def split: if_splits option.splits)

text \<open>
  The start date of a tick is the local time of the tick, moved back by ten poll
  intervals and converted to UTC.
\<close>

lemma local_time_fields:
  fixes l :: int
  shows "(l div 86400000) * 86400000
     + (((l div 3600000) mod 24) * 3600000 + ((l div 60000) mod 60) * 60000
        + (SecFromTime l - 60) * 1000 + l mod 1000)
   = l - 60000"
proof -
  define a1 where "a1 = l div 1000"
  define a2 where "a2 = a1 div 60"
  define a3 where "a3 = a2 div 60"
  define a4 where "a4 = a3 div 24"
  have d2: "l div 60000 = a2"
    unfolding a2_def a1_def using zdiv_zmult2_eq [of 60 l 1000] by simp
  have d3: "l div 3600000 = a3"
    unfolding a3_def d2 [symmetric] using zdiv_zmult2_eq [of 60 l 60000] by simp
  have d4: "l div 86400000 = a4"
    unfolding a4_def d3 [symmetric] using zdiv_zmult2_eq [of 24 l 3600000] by simp
  define r0 where "r0 = l mod 1000"
  define r1 where "r1 = a1 mod 60"
  define r2 where "r2 = a2 mod 60"
  define r3 where "r3 = a3 mod 24"
  have e1: "l = a1 * 1000 + r0"
    unfolding a1_def r0_def by simp
  have e2: "a1 = a2 * 60 + r1"
    unfolding a2_def r1_def by simp
  have e3: "a2 = a3 * 60 + r2"
    unfolding a3_def r2_def by simp
  have e4: "a3 = a4 * 24 + r3"
    unfolding a4_def r3_def by simp
  have "l = (((a4 * 24 + r3) * 60 + r2) * 60 + r1) * 1000 + r0"
    using e1 e2 e3 e4 by metis
  then have "a4 * 86400000 + (r3 * 3600000 + r2 * 60000 + (r1 - 60) * 1000 + r0) = l - 60000"
    by (simp add: algebra_simps)
  then show ?thesis
    unfolding SecFromTime_def d2 d3 d4 a1_def [symmetric] r0_def r1_def r2_def r3_def .
qed

lemma tick_startDate_local:
  "tick_startDate M now = UTC M (LocalTime M now - 10 * POLL_INTERVAL)"
proof -
  let ?l = "LocalTime M now"
  have "tick_startDate M now =
      UTC M ((?l div 86400000) * 86400000
        + (((?l div 3600000) mod 24) * 3600000 + ((?l div 60000) mod 60) * 60000
           + (SecFromTime ?l - 60) * 1000 + ?l mod 1000))"
    by (simp add: tick_startDate_def setSeconds_def getSeconds_def Let_def POLL_INTERVAL_def)
  also have "\<dots> = UTC M (?l - 60000)"
    by (simp only: local_time_fields)
  finally show ?thesis
    by (simp add: POLL_INTERVAL_def)
qed

text \<open>
  Where the offset read for that local time is the offset at the tick, the start date is
  the time of the tick minus ten poll intervals.
\<close>

lemma tick_startDate_fixed_offset:
  assumes "LocalTZA M (LocalTime M now - 10 * POLL_INTERVAL) False = LocalTZA M now True"
  shows "tick_startDate M now = now - 10 * POLL_INTERVAL"
  using assms by (simp add: tick_startDate_local UTC_def LocalTime_def)

lemma tick_requests:
  "requests (snd (tick M c loc pid now logs s)) =
     requests s @ [\<lparr>resourceNames = [''projects/'' @ pid],
                    filter' = time_filter (Some (tick_startDate M now)),
                    orderBy = ''timestamp desc''\<rparr>]"
  by (simp add: tick_def fetchAndPrintLogs_def Let_def printLogs_requests status_switch_def
      logError_def)

section \<open>The claims\<close>

text \<open>
  C1. In a session, every insertion identifier labels at most one printed line, however
  many batches hold an entry with it: both when the batches are given to \<open>printLogs\<close>
  one after the other, and over the ticks of the watch mode, each from an empty cache.
  And when a batch of entries that render, with distinct identifiers none of which names
  an inherited member, is fetched twice, the session prints each entry within the cap
  once: for three entries, 3 lines and not 6.
\<close>

theorem printed_at_most_once:
  "distinct (map insertId (printed (console (run_session M j batches session0))))
   \<and> distinct (map insertId (printed (console (run_watch M c loc pid ticks session0))))
   \<and> (list_all (renders M j) es \<and> distinct (map insertId es)
        \<and> list_all (\<lambda>e. insertId e \<notin> set Object_prototype_keys) es \<longrightarrow>
      printed (console (run_session M j [Array es, Array es] session0)) = take 50 (rev es)
      \<and> length (console (run_session M j [Array es, Array es] session0)) = min 50 (length es))"
proof -
  have "cache_inv (run_session M j batches session0)"
    using cache_inv_session0 by (rule run_session_inv)
  then have once: "distinct (map insertId (printed (console (run_session M j batches session0))))"
    by (simp add: cache_inv_def)
  have twice: "printed (console (run_session M j [Array es, Array es] session0)) = take 50 (rev es)
      \<and> length (console (run_session M j [Array es, Array es] session0)) = min 50 (length es)"
    if "list_all (renders M j) es" and "distinct (map insertId es)"
      and "list_all (\<lambda>e. insertId e \<notin> set Object_prototype_keys) es"
    using twice_fresh [OF that] by (simp add: printed_lines)
  have "cache_inv (run_watch M c loc pid ticks session0)"
    using cache_inv_session0 by (rule run_watch_inv)
  then have watch: "distinct (map insertId (printed (console (run_watch M c loc pid ticks session0))))"
    by (simp add: cache_inv_def)
  from once watch twice show ?thesis
    by blast
qed

text \<open>The batch of three entries, fetched twice: three lines, oldest first.\<close>

theorem printed_at_most_once_witness:
  "distinct (map insertId (printed (console
      (run_session sample_environment False [Array batch3, Array batch3] session0))))
   \<and> printed (console (run_session sample_environment False [Array batch3, Array batch3] session0))
       = rev batch3
   \<and> length (console (run_session sample_environment False [Array batch3, Array batch3] session0))
       = 3"
proof -
  note t = printed_at_most_once [where M = sample_environment and j = False
      and batches = "[Array batch3, Array batch3]" and es = batch3
      and c = cmd_poll_1000 and loc = True and pid = "''project-id-1''" and ticks = "[]"]
  have 1: "distinct (map insertId (printed (console
      (run_session sample_environment False [Array batch3, Array batch3] session0))))"
    using t by blast
  have 2: "printed (console (run_session sample_environment False [Array batch3, Array batch3] session0))
        = take 50 (rev batch3)
      \<and> length (console (run_session sample_environment False [Array batch3, Array batch3] session0))
        = min 50 (length batch3)"
    using t batch3_ok(1) [of sample_environment] batch3_ok(2,3) by blast
  have 3: "take 50 (rev batch3) = rev batch3" "min 50 (length batch3) = 3"
    by (simp_all add: batch3_def)
  show ?thesis
    using 1 2 3 by simp
qed

text \<open>
  C2. One call of \<open>printLogs\<close> appends at most 50 lines to the output, whatever its
  argument: an array of any length, an empty array, \<open>undefined\<close> or \<open>null\<close>.
\<close>

theorem printLogs_at_most_50:
  "console (snd (printLogs M j a s)) = console s @ written_by M j a s
   \<and> length (written_by M j a s) \<le> 50"
  using printLogs_written written_by_le_50 by blast

text \<open>
  C3. When the timestamps of a batch descend with respect to a relation \<open>R\<close>, the
  entries that \<open>printLogs\<close> prints ascend with respect to \<open>R\<close>: strictly for a strict
  order, and with equal neighbours allowed for an order that allows them in the batch.
  A batch of at most 50 entries that render, with distinct identifiers none of which
  names an inherited member, is printed from an empty cache in reverse, each entry once.
\<close>

theorem printed_in_ascending_order:
  "(descending_by R es \<longrightarrow> ascending_by R (printed_by M j (Array es) s))
   \<and> (list_all (renders M j) es \<and> distinct (map insertId es)
        \<and> list_all (\<lambda>e. insertId e \<notin> set Object_prototype_keys) es \<and> length es \<le> 50 \<longrightarrow>
      printed_by M j (Array es) session0 = rev es)"
  by (simp add: printed_by_ascending printed_by_fresh)

text \<open>The batch with timestamps T3, T2, T1 is printed in the order T1, T2, T3.\<close>

theorem printed_in_ascending_order_witness:
  "descending_by (<) batch3
   \<and> ascending_by (<) (printed_by sample_environment False (Array batch3) session0)
   \<and> printed_by sample_environment False (Array batch3) session0 =
       [sample_entry ''id1'' ''2019-01-01T00:00:01.000Z'',
        sample_entry ''id2'' ''2019-01-01T00:00:02.000Z'',
        sample_entry ''id3'' ''2019-01-01T00:00:03.000Z'']"
proof -
  have d: "descending_by (<) batch3"
    by (simp add: descending_by_def batch3_def)
  have l: "length batch3 \<le> 50"
    by (simp add: batch3_def)
  note t = printed_in_ascending_order [of "(<)" batch3 sample_environment False session0]
  have a: "ascending_by (<) (printed_by sample_environment False (Array batch3) session0)"
    using t d by blast
  have p: "printed_by sample_environment False (Array batch3) session0 = rev batch3"
    using t l batch3_ok(1) [of sample_environment] batch3_ok(2,3) by blast
  have r: "rev batch3 =
       [sample_entry ''id1'' ''2019-01-01T00:00:01.000Z'',
        sample_entry ''id2'' ''2019-01-01T00:00:02.000Z'',
        sample_entry ''id3'' ''2019-01-01T00:00:03.000Z'']"
    by (simp add: batch3_def)
  show ?thesis
    using d a p r by simp
qed

text \<open>
  Two entries with equal timestamps descend in the order \<open>\<le>\<close> of the timestamps, and
  both are printed: the printed timestamps do not ascend strictly.
\<close>

theorem ties_not_strictly_ascending:
  "descending_by (\<le>) ties2
   \<and> \<not> ascending_by (<) (printed_by sample_environment False (Array ties2) session0)"
proof -
  have "printed_by sample_environment False (Array ties2) session0 = take 50 (rev ties2)"
    using ties2_ok by (rule printed_by_fresh)
  then show ?thesis
    by (simp add: ties2_def descending_by_def ascending_by_def)
qed


text \<open>
  C5. In text mode, when the payload selected for an entry is an object whose \<open>@type\<close>
  is the audit-log type, every line rendered for the entry has the method name of the
  payload, padded to 15 characters, as its function-name field and the setup message as
  its payload; and the line is rendered whenever \<open>resource.labels\<close> and the method name
  are present.
\<close>

theorem audit_log_line:
  "payloadData M e = PObject p \<and> at_type p = Some AuditLog \<longrightarrow>
     (\<forall>l. render M False e = Inr l \<longrightarrow>
        (\<exists>m. methodName p = Some m
           \<and> l = coloredSeverity M (severity e) @ '' '' @ timestamp e @ '' '' @ padEnd m 15
                 @ '' '' @ setup_text M))
     \<and> (\<forall>m. functionName M e \<noteq> Inl TypeError \<and> methodName p = Some m \<longrightarrow>
        render M False e =
          Inr (coloredSeverity M (severity e) @ '' '' @ timestamp e @ '' '' @ padEnd m 15
               @ '' '' @ setup_text M))"
proof (intro impI, elim conjE)
  assume pd: "payloadData M e = PObject p" and t: "at_type p = Some AuditLog"
  have pp: "protoPayload e = Some p"
    using pd by (rule payloadData_object)
  have a: "is_audit (payloadData M e)"
    using pd t by simp
  show "(\<forall>l. render M False e = Inr l \<longrightarrow>
        (\<exists>m. methodName p = Some m
           \<and> l = coloredSeverity M (severity e) @ '' '' @ timestamp e @ '' '' @ padEnd m 15
                 @ '' '' @ setup_text M))
     \<and> (\<forall>m. functionName M e \<noteq> Inl TypeError \<and> methodName p = Some m \<longrightarrow>
        render M False e =
          Inr (coloredSeverity M (severity e) @ '' '' @ timestamp e @ '' '' @ padEnd m 15
               @ '' '' @ setup_text M))"
  proof (cases "functionName M e")
    case (Inl err)
    then show ?thesis
      by (cases err) (simp add: render_def shown_fields_def)
  next
    case (Inr fn)
    show ?thesis
    proof (cases "methodName p")
      case None
      with Inr a pp show ?thesis
        by (simp add: render_def shown_fields_def)
    next
      case (Some m)
      with Inr a pp show ?thesis
        by (auto simp: render_def shown_fields_def setup_text_def)
    qed
  qed
qed

text \<open>The line of an audit-log entry.\<close>

theorem audit_log_line_witness:
  "payloadData sample_environment audit_entry =
     PObject \<lparr>at_type = Some AuditLog, methodName = Some ''SetIamPolicy''\<rparr>
   \<and> functionName sample_environment audit_entry = Inr ''N/A''
   \<and> render sample_environment False audit_entry =
       Inr (coloredSeverity sample_environment (Some ''NOTICE'') @ '' '' @ ''2019-01-01T00:00:01.000Z'' @ '' ''
            @ ''SetIamPolicy   '' @ '' '' @ ''Setting up StackDriver Logging.'')"
proof -
  let ?p = "\<lparr>at_type = Some AuditLog, methodName = Some ''SetIamPolicy''\<rparr>"
  have pd: "payloadData sample_environment audit_entry = PObject ?p"
    by (simp add: payloadData_def audit_entry_def js_of_def data_jsonPayload_def)
  have fn: "functionName sample_environment audit_entry = Inr ''N/A''"
    by (simp add: functionName_def audit_entry_def js_of_def sample_environment_def)
  then have fn': "functionName sample_environment audit_entry \<noteq> Inl TypeError"
    by simp
  have t: "at_type ?p = Some AuditLog" and m: "methodName ?p = Some ''SetIamPolicy''"
    by simp_all
  have s: "setup_text sample_environment = ''Setting up StackDriver Logging.''"
    "padEnd ''SetIamPolicy'' 15 = ''SetIamPolicy   ''"
    by code_simp+
  have f: "severity audit_entry = Some ''NOTICE''"
    "timestamp audit_entry = ''2019-01-01T00:00:01.000Z''"
    by (simp_all add: audit_entry_def)
  have "render sample_environment False audit_entry =
          Inr (coloredSeverity sample_environment (severity audit_entry) @ '' '' @ timestamp audit_entry @ '' ''
               @ padEnd ''SetIamPolicy'' 15 @ '' '' @ setup_text sample_environment)"
    using audit_log_line [of sample_environment audit_entry ?p] pd t fn' m by blast
  then have "render sample_environment False audit_entry =
       Inr (coloredSeverity sample_environment (Some ''NOTICE'') @ '' '' @ ''2019-01-01T00:00:01.000Z'' @ '' ''
            @ ''SetIamPolicy   '' @ '' '' @ ''Setting up StackDriver Logging.'')"
    by (simp only: s f)
  with pd fn show ?thesis
    by (intro conjI)
qed

text \<open>
  C6. A response with status 403 under local credentials, in a running process: the one
  error written for the fetch is the local permission-denied message. \<open>logError\<close> ends
  the process with it, so the call of the default case, with the status code and text,
  is not reached.
\<close>

theorem permission_denied_local_only:
  "\<not> exited s \<longrightarrow>
     console (snd (fetchAndPrintLogs M j True projectId startDate
        \<lparr>status = 403, statusText = txt, entries = a\<rparr> s)) =
       console s @ [Log (time_filter startDate), Error (ERROR_PERMISSION_DENIED_LOCAL M)]
     \<and> exited (snd (fetchAndPrintLogs M j True projectId startDate
        \<lparr>status = 403, statusText = txt, entries = a\<rparr> s))"
  by (simp add: fetchAndPrintLogs_def status_switch_def logError_def Let_def)

text \<open>The one-shot fetch of a fresh session, answered with 403 Forbidden.\<close>

theorem permission_denied_local_only_witness:
  "\<not> exited session0
   \<and> console (snd (fetchAndPrintLogs sample_environment False True ''project-id-1'' None
        \<lparr>status = 403, statusText = ''Forbidden'', entries = Undefined\<rparr> session0)) =
       [Log [], Error ''Permission denied (local credentials)'']"
proof -
  have r: "\<not> exited session0"
    by (simp add: session0_def)
  have "console (snd (fetchAndPrintLogs sample_environment False True ''project-id-1'' None
        \<lparr>status = 403, statusText = ''Forbidden'', entries = Undefined\<rparr> session0)) =
       console session0 @ [Log (time_filter None),
         Error (ERROR_PERMISSION_DENIED_LOCAL sample_environment)]"
    using permission_denied_local_only [of session0 sample_environment False "''project-id-1''"
        None "''Forbidden''" Undefined] r
    by blast
  then show ?thesis
    using r by (simp add: session0_def time_filter_def sample_environment_def)
qed

text \<open>
  C7. A tick of the watch mode at 2019-03-10T07:00:30Z on a machine in New York, half a
  minute after the clocks went forward: the seconds of the local time 03:00:30 are set to
  -30, which gives the local time 02:59:30 that the clocks skipped, and the filter of the
  request has the lower bound 07:59:30Z, 59 minutes after the tick; the time of the tick
  minus ten poll intervals is 06:59:30Z. At 2019-11-03T06:00:30Z, after the clocks went
  back, the lower bound is 04:59:30Z, 61 minutes before the tick.
\<close>

theorem watch_filter_after_clock_change:
  "requests (snd (tick new_york_2019 c loc pid 1552201230000 logs s)) =
     requests s @ [\<lparr>resourceNames = [''projects/'' @ pid],
                    filter' = ''timestamp >= '' @ [dquote] @ ''2019-03-10T07:59:30.000Z''
                              @ [dquote],
                    orderBy = ''timestamp desc''\<rparr>]
   \<and> toISOString 1552201230000 = ''2019-03-10T07:00:30.000Z''
   \<and> toISOString (1552201230000 - 10 * POLL_INTERVAL) = ''2019-03-10T06:59:30.000Z''
   \<and> requests (snd (tick new_york_2019 c loc pid 1572760830000 logs s)) =
     requests s @ [\<lparr>resourceNames = [''projects/'' @ pid],
                    filter' = ''timestamp >= '' @ [dquote] @ ''2019-11-03T04:59:30.000Z''
                              @ [dquote],
                    orderBy = ''timestamp desc''\<rparr>]
   \<and> toISOString 1572760830000 = ''2019-11-03T06:00:30.000Z''
   \<and> toISOString (1572760830000 - 10 * POLL_INTERVAL) = ''2019-11-03T05:59:30.000Z''"
proof -
  have "tick_startDate new_york_2019 1552201230000 = 1552204770000"
    "tick_startDate new_york_2019 1572760830000 = 1572757170000"
    by (simp_all add: tick_startDate_local UTC_def LocalTime_def POLL_INTERVAL_def
        new_york_2019_def)
  moreover have "toISOString 1552204770000 = ''2019-03-10T07:59:30.000Z''"
    "toISOString 1552201230000 = ''2019-03-10T07:00:30.000Z''"
    "toISOString 1552201170000 = ''2019-03-10T06:59:30.000Z''"
    "toISOString 1572757170000 = ''2019-11-03T04:59:30.000Z''"
    "toISOString 1572760830000 = ''2019-11-03T06:00:30.000Z''"
    "toISOString 1572760770000 = ''2019-11-03T05:59:30.000Z''"
    by code_simp+
  ultimately show ?thesis
    by (simp add: tick_requests time_filter_def POLL_INTERVAL_def)
qed

text \<open>
  C8. Watch mode repeats on the constant interval of 6000 milliseconds, whatever further
  properties the options carry.
\<close>

theorem poll_interval_fixed:
  "\<not> open' c \<and> watch c \<longrightarrow> logs_plan c = SetInterval 6000"
  by (simp add: logs_plan_def POLL_INTERVAL_def)

text \<open>Options with \<open>pollIntervalMs = 1000\<close> still give the interval 6000.\<close>

theorem poll_interval_fixed_witness:
  "\<not> open' cmd_poll_1000 \<and> watch cmd_poll_1000 \<and> pollIntervalMs cmd_poll_1000 = 1000
   \<and> logs_plan cmd_poll_1000 = SetInterval 6000"
  using poll_interval_fixed [of cmd_poll_1000] by (simp add: cmd_poll_1000_def)

text \<open>The interval is not the value of \<open>pollIntervalMs\<close>.\<close>

theorem pollIntervalMs_ignored:
  "pollIntervalMs cmd_poll_1000 = 1000 \<and> watch cmd_poll_1000
   \<and> logs_plan cmd_poll_1000 \<noteq> SetInterval (pollIntervalMs cmd_poll_1000)"
  by (simp add: cmd_poll_1000_def logs_plan_def POLL_INTERVAL_def)

text \<open>
  C9. For a batch of more than 50 entries, newest first, \<open>printLogs\<close> prints only
  entries among the last 50 of the batch, the oldest ones, in reverse order, and writes
  nothing else; the entries before them, the newest, are not visited. When the entries
  render and have distinct identifiers none of which names an inherited member, the
  lines printed from an empty cache are exactly the 50 oldest, oldest first.
\<close>

theorem cap_keeps_oldest:
  "(50 < length es \<longrightarrow>
      subseq (printed_by M j (Array es) s) (rev (drop (length es - 50) es))
      \<and> length (written_by M j (Array es) s) = length (printed_by M j (Array es) s))
   \<and> (50 < length es \<and> list_all (renders M j) es \<and> distinct (map insertId es)
        \<and> list_all (\<lambda>e. insertId e \<notin> set Object_prototype_keys) es \<longrightarrow>
      printed_by M j (Array es) session0 = rev (drop (length es - 50) es))"
  using printed_by_subseq [of M j "Array es" s] written_all_lines [of M j "Array es" s]
  by (simp add: printed_by_fresh take_50_rev)

text \<open>A burst of 51 entries: the 50 oldest are printed.\<close>

theorem cap_keeps_oldest_witness:
  "50 < length (burst 51)
   \<and> printed_by sample_environment False (Array (burst 51)) session0 = rev (drop 1 (burst 51))
   \<and> length (written_by sample_environment False (Array (burst 51)) session0) = 50"
proof -
  have 1: "length (burst 51) = 51"
    by (simp add: burst_def)
  note t = cap_keeps_oldest [of "burst 51" sample_environment False session0]
  have p: "printed_by sample_environment False (Array (burst 51)) session0 = rev (drop 1 (burst 51))"
    using t 1 burst_renders [of sample_environment 51] burst51_ids by simp
  have w: "length (written_by sample_environment False (Array (burst 51)) session0)
       = length (printed_by sample_environment False (Array (burst 51)) session0)"
    using t 1 by simp
  show ?thesis
    using 1 p w by simp
qed

text \<open>
  Of a burst of 51 entries with descending timestamps the newest is not printed and the
  oldest is: the printed entries are not the 50 newest.
\<close>

theorem cap_drops_newest:
  "length (burst 51) = 51
   \<and> descending_by (<) (burst 51)
   \<and> printed_by sample_environment False (Array (burst 51)) session0 \<noteq> rev (take 50 (burst 51))
   \<and> hd (burst 51) \<notin> set (printed_by sample_environment False (Array (burst 51)) session0)
   \<and> last (burst 51) \<in> set (printed_by sample_environment False (Array (burst 51)) session0)"
proof -
  have 1: "length (burst 51) = 51"
    by (simp add: burst_def)
  have 2: "descending_by (<) (burst 51)"
    unfolding descending_by_def by code_simp
  have 3: "rev (drop 1 (burst 51)) \<noteq> rev (take 50 (burst 51))"
    by code_simp
  have 4: "hd (burst 51) \<notin> set (rev (drop 1 (burst 51)))"
    by code_simp
  have 5: "last (burst 51) \<in> set (rev (drop 1 (burst 51)))"
    by code_simp
  show ?thesis
    using 1 2 3 4 5 by (simp add: burst51_printed)
qed

text \<open>
  C10. An insertion identifier that is the name of a member inherited from
  \<open>Object.prototype\<close> is truthy in the empty cache already, and no line of an entry with
  such an identifier is printed in any session.
\<close>

theorem inherited_id_never_printed:
  "k \<in> set Object_prototype_keys \<Longrightarrow>
     truthy (get_property (logEntryCache session0) k)
     \<and> k \<notin> insertId ` set (printed (console (run_session M j batches session0)))"
proof -
  assume k: "k \<in> set Object_prototype_keys"
  have "cache_inv (run_session M j batches session0)"
    using cache_inv_session0 by (rule run_session_inv)
  then have "k \<notin> insertId ` set (printed (console (run_session M j batches session0)))"
    using k by (auto simp: cache_inv_def)
  moreover have "truthy (get_property (logEntryCache session0) k)"
    using k by (simp add: session0_def get_property_def)
  ultimately show ?thesis by simp
qed

text \<open>An entry with the identifier \<open>toString\<close>.\<close>

theorem inherited_id_never_printed_witness:
  "''toString'' \<in> set Object_prototype_keys
   \<and> truthy (get_property (logEntryCache session0) ''toString'')
   \<and> ''toString'' \<notin> insertId ` set (printed (console
        (run_session sample_environment False
           [Array [sample_entry ''toString'' ''2019-01-01T00:00:01.000Z'']] session0)))"
proof -
  have k: "''toString'' \<in> set Object_prototype_keys"
    by (simp add: Object_prototype_keys_def)
  show ?thesis
    using k inherited_id_never_printed [OF k] by blast
qed

end
